theory Spec2Isabelle
  imports Main
begin

section \<open>The job poller of the frontend (src/frontend/app.js)\<close>

text \<open>
  The frontend is single-threaded JavaScript: every handler runs to completion, and an
  \<^verbatim>\<open>async\<close> function is a sequence of such runs, cut at each \<^verbatim>\<open>await\<close>. The model below
  has one function for every run of the source, a state record for the globals of the
  source together with the timers and requests the browser holds for it, and a list of
  the calls the code makes on the page, in the order it makes them.

  Strings are lists of 8-bit code units. A JSON object is an association list from
  property names to primitive values; numbers are integers.
\<close>

subsection \<open>Values\<close>

datatype jsval = Undefined | Null | Bool bool | Num int | Str string

type_synonym obj = "(string \<times> jsval) list"

text \<open>Reading a property: a missing one is \<^verbatim>\<open>undefined\<close>.\<close>

definition get :: "obj \<Rightarrow> string \<Rightarrow> jsval" where
  "get ob k = (case map_of ob k of None \<Rightarrow> Undefined | Some v \<Rightarrow> v)"

text \<open>What \<^verbatim>\<open>if (v)\<close> and \<^verbatim>\<open>v || w\<close> test.\<close>

fun truthy :: "jsval \<Rightarrow> bool" where
  "truthy Undefined = False"
| "truthy Null = False"
| "truthy (Bool b) = b"
| "truthy (Num n) = (n \<noteq> 0)"
| "truthy (Str s) = (s \<noteq> [])"

definition or_else :: "jsval \<Rightarrow> jsval \<Rightarrow> jsval" where
  "or_else v w = (if truthy v then v else w)"

text \<open>
  The string form of a value, as a template literal and \<^verbatim>\<open>new Error(v)\<close> take it. A number
  is written in decimal digits, which is what JavaScript does for integers below
  \<^verbatim>\<open>1e21\<close> in magnitude.
\<close>

definition digit :: "nat \<Rightarrow> char" where
  "digit n = ''0123456789'' ! n"

fun dec :: "nat \<Rightarrow> string" where
  "dec n = (if n < 10 then [digit n] else dec (n div 10) @ [digit (n mod 10)])"

declare dec.simps [simp del]

fun ToString :: "jsval \<Rightarrow> string" where
  "ToString Undefined = ''undefined''"
| "ToString Null = ''null''"
| "ToString (Bool b) = (if b then ''true'' else ''false'')"
| "ToString (Num n) = (if n < 0 then ''-'' @ dec (nat (- n)) else dec (nat n))"
| "ToString (Str s) = s"

text \<open>
  How a promise settles. A rejection, like a thrown \<^verbatim>\<open>Error\<close>, is recorded by the value
  its message is the string form of.
\<close>

datatype 'a settled = Rejects jsval | Resolves 'a

text \<open>A response of \<^verbatim>\<open>fetch\<close>: \<^verbatim>\<open>response.ok\<close> and how \<^verbatim>\<open>response.json()\<close> settles.\<close>

record response =
  ok :: bool
  json :: "obj settled"

subsection \<open>The page and the globals\<close>

text \<open>
  What the code reads from its surroundings: the translation table behind \<^verbatim>\<open>t(key)\<close>,
  \<^verbatim>\<open>window.location\<close>, the platform's URL parser (\<open>new_URL x\<close> is the \<^verbatim>\<open>origin\<close> of
  \<^verbatim>\<open>new URL(x)\<close>, or the error the constructor throws), and the platform's HTML parser
  as far as \<^verbatim>\<open>showToast\<close> depends on it: \<open>swallows m\<close> says that the markup of a toast
  with the message \<open>m\<close> has no element of class \<^verbatim>\<open>toast-close\<close> (the message opens a
  comment or a tag that takes the button in), and \<open>null_message\<close> is the message of the
  \<^verbatim>\<open>TypeError\<close> that calling a method on \<^verbatim>\<open>null\<close> throws.
\<close>

record env =
  translate :: "string \<Rightarrow> string"
  hostname :: string
  origin :: string
  new_URL :: "string \<Rightarrow> jsval + string"
  swallows :: "string \<Rightarrow> bool"
  null_message :: string

text \<open>
  The closure of one call of \<^verbatim>\<open>startJobPolling\<close>: its \<^verbatim>\<open>jobId\<close> and its \<^verbatim>\<open>startTime\<close>.
  \<open>sid\<close> names the call: it is the handle that the call's \<^verbatim>\<open>setInterval\<close> returns.
\<close>

record poller =
  sid :: nat
  jobId :: jsval
  startTime :: int

text \<open>The calls the code makes on the page, the console and the network.\<close>

datatype effect =
    FetchStatus string jsval
  | ShowStatusPanel
  | SetBadge string string
  | SetProgress jsval
  | SetMessage jsval
  | SetTime int
  | ShowResult obj
  | AddToHistory obj
  | ShowToast string string
  | ConsoleError jsval
  | SetButtonLoading bool

text \<open>
  \<open>API_BASE\<close>, \<open>currentJob\<close> and \<open>pollingTimer\<close> are the globals of the source
  (\<^verbatim>\<open>state.currentJob\<close>, \<^verbatim>\<open>state.pollingTimer\<close>). \<open>intervals\<close> are the interval timers
  the browser holds (handle and callback), \<open>inflight\<close> the status requests sent and not
  yet settled, each with the closure whose \<^verbatim>\<open>poll\<close> awaits it. \<open>effects\<close> lists the calls
  made so far, each with the closure that made it (\<open>None\<close> outside any poller).
\<close>

record state =
  API_BASE :: string
  currentJob :: "obj option"
  pollingTimer :: "nat option"
  intervals :: "(nat \<times> poller) list"
  nextHandle :: nat
  inflight :: "(nat \<times> poller) list"
  nextRequest :: nat
  effects :: "(poller option \<times> effect) list"

definition init :: state where
  "init = \<lparr>API_BASE = ''http://localhost:8000/api'', currentJob = None,
     pollingTimer = None, intervals = [], nextHandle = 1, inflight = [],
     nextRequest = 0, effects = []\<rparr>"

definition emit :: "poller option \<Rightarrow> effect list \<Rightarrow> state \<Rightarrow> state" where
  "emit c es s = s\<lparr>effects := effects s @ map (Pair c) es\<rparr>"

subsection \<open>The browser's timers\<close>

text \<open>
  \<^verbatim>\<open>setInterval\<close> returns a handle greater than zero that no earlier timer had;
  \<^verbatim>\<open>clearInterval\<close> removes the timer with the given handle and does nothing for \<^verbatim>\<open>null\<close>
  or for a handle with no timer.
\<close>

definition setInterval :: "poller \<Rightarrow> state \<Rightarrow> nat \<times> state" where
  "setInterval c s =
     (nextHandle s,
      s\<lparr>intervals := intervals s @ [(nextHandle s, c)], nextHandle := Suc (nextHandle s)\<rparr>)"

definition clearInterval :: "nat option \<Rightarrow> state \<Rightarrow> state" where
  "clearInterval h s =
     (case h of None \<Rightarrow> s
      | Some k \<Rightarrow> s\<lparr>intervals := filter (\<lambda>p. fst p \<noteq> k) (intervals s)\<rparr>)"

subsection \<open>Toasts (lines 807-840)\<close>

text \<open>
  \<^verbatim>\<open>showToast(message, type)\<close> builds the toast from markup with the message's string form
  in it, looks up the close button in what the parser made of it, and only then appends
  the toast to the page. When the button is not there, the call
  \<^verbatim>\<open>closeBtn.addEventListener\<close> throws and nothing was shown. \<open>Inl\<close> is the error thrown,
  \<open>Inr\<close> the state after the call.
\<close>

definition showToast :: "env \<Rightarrow> poller option \<Rightarrow> jsval \<Rightarrow> string \<Rightarrow> state \<Rightarrow> jsval + state" where
  "showToast e c message type s =
     (if swallows e (ToString message) then Inl (Str (null_message e))
      else Inr (emit c [ShowToast (ToString message) type] s))"

subsection \<open>API base (lines 5-32)\<close>

definition computeDefaultApiBase :: "env \<Rightarrow> string" where
  "computeDefaultApiBase e =
     (let isLocal = (hostname e = ''localhost'' \<or> hostname e = ''127.0.0.1'')
      in if isLocal then ''http://localhost:8000/api'' else origin e @ ''/api'')"

text \<open>
  \<^verbatim>\<open>String.prototype.trim\<close> removes white space and line terminators at both ends; below
  code unit 256 these are tab, line feed, vertical tab, form feed, carriage return,
  space and no-break space.
\<close>

definition isSpace :: "char \<Rightarrow> bool" where
  "isSpace c = (of_char c \<in> {9, 10, 11, 12, 13, 32, 160 :: nat})"

definition trim :: "string \<Rightarrow> string" where
  "trim s = rev (dropWhile isSpace (rev (dropWhile isSpace s)))"

text \<open>\<^verbatim>\<open>value.replace(/\/$/, '')\<close>: one slash at the very end is removed.\<close>

definition stripSlash :: "string \<Rightarrow> string" where
  "stripSlash v = (if v \<noteq> [] \<and> last v = CHR ''/'' then butlast v else v)"

text \<open>The argument \<^verbatim>\<open>url\<close> is a string, or \<open>None\<close> for \<^verbatim>\<open>null\<close> and \<^verbatim>\<open>undefined\<close>.\<close>

definition setApiBase :: "env \<Rightarrow> string option \<Rightarrow> state \<Rightarrow> state" where
  "setApiBase e url s =
     (let v = trim (case url of None \<Rightarrow> [] | Some u \<Rightarrow> u)
      in if v = [] then s\<lparr>API_BASE := computeDefaultApiBase e\<rparr>
         else s\<lparr>API_BASE := stripSlash v\<rparr>)"

text \<open>\<open>Inl\<close> is a thrown error, \<open>Inr\<close> a returned value.\<close>

definition try_catch :: "jsval + 'a \<Rightarrow> (jsval \<Rightarrow> jsval + 'a) \<Rightarrow> jsval + 'a" where
  "try_catch body handler = (case body of Inl x \<Rightarrow> handler x | Inr v \<Rightarrow> Inr v)"

definition getBackendOrigin :: "env \<Rightarrow> state \<Rightarrow> jsval + string" where
  "getBackendOrigin e s =
     try_catch (new_URL e (API_BASE s)) (\<lambda>_. Inr ''http://localhost:8000'')"

subsection \<open>Job polling (lines 650-723)\<close>

text \<open>\<^verbatim>\<open>Math.round((Date.now() - startTime) / 1000)\<close>, on whole milliseconds.\<close>

definition elapsed :: "int \<Rightarrow> int \<Rightarrow> int" where
  "elapsed start now = (now - start + 500) div 1000"

text \<open>The first run of \<^verbatim>\<open>poll\<close>: up to the \<^verbatim>\<open>await fetch\<close>.\<close>

definition poll_send :: "poller \<Rightarrow> state \<Rightarrow> state" where
  "poll_send c s =
     emit (Some c) [FetchStatus (API_BASE s) (jobId c)]
       (s\<lparr>inflight := inflight s @ [(nextRequest s, c)],
          nextRequest := Suc (nextRequest s)\<rparr>)"

definition console_error :: "poller \<Rightarrow> jsval \<Rightarrow> state \<Rightarrow> state" where
  "console_error c x s = emit (Some c) [ConsoleError x] s"

text \<open>
  The rest of \<^verbatim>\<open>poll\<close>, run when the request settles at time \<open>now\<close>. \<open>poll_try\<close> is the
  body of the \<^verbatim>\<open>try\<close> from the test of \<^verbatim>\<open>response.ok\<close> on: it gives the state it leaves
  and, when it throws, the error, the state being the one at the throw. \<open>poll_settle\<close>
  adds the \<^verbatim>\<open>catch\<close>.
\<close>

definition poll_try :: "env \<Rightarrow> int \<Rightarrow> poller \<Rightarrow> response settled \<Rightarrow> state \<Rightarrow> jsval option \<times> state" where
  "poll_try e now c outcome s =
     (case outcome of
        Rejects x \<Rightarrow> (Some x, s)
      | Resolves r \<Rightarrow>
          if \<not> ok r then (Some (Str ''Failed to get job status''), s)
          else (case json r of
              Rejects x \<Rightarrow> (Some x, s)
            | Resolves job \<Rightarrow>
                let s1 = emit (Some c)
                      [SetProgress (get job ''progress''), SetMessage (get job ''message''),
                       SetTime (elapsed (startTime c) now)] s
                in
                  if get job ''status'' = Str ''completed'' then
                    (let s2 = emit (Some c)
                           [SetBadge ''status-badge completed'' (translate e ''completed''),
                            ShowResult job]
                           (clearInterval (pollingTimer s1) s1)
                     in case showToast e (Some c) (Str (translate e ''completed'' @ ''!''))
                               ''success'' s2 of
                          Inl x \<Rightarrow> (Some x, s2)
                        | Inr s3 \<Rightarrow>
                            (None, (emit (Some c) [AddToHistory job] s3)\<lparr>currentJob := Some job\<rparr>))
                  else if get job ''status'' = Str ''failed'' then
                    (let s2 = emit (Some c)
                           [SetBadge ''status-badge failed'' (translate e ''failed'')]
                           (clearInterval (pollingTimer s1) s1)
                     in case showToast e (Some c)
                               (or_else (get job ''error'') (Str (translate e ''failed'')))
                               ''error'' s2 of
                          Inl x \<Rightarrow> (Some x, s2)
                        | Inr s3 \<Rightarrow> (None, s3\<lparr>currentJob := Some job\<rparr>))
                  else (None, s1\<lparr>currentJob := Some job\<rparr>)))"

definition poll_settle :: "env \<Rightarrow> int \<Rightarrow> poller \<Rightarrow> response settled \<Rightarrow> state \<Rightarrow> state" where
  "poll_settle e now c outcome s =
     (case poll_try e now c outcome s of
        (Some x, s') \<Rightarrow> console_error c x s'
      | (None, s') \<Rightarrow> s')"

text \<open>\<^verbatim>\<open>if (state.pollingTimer) clearInterval(state.pollingTimer)\<close>, the first statement.\<close>

definition clearPrevious :: "state \<Rightarrow> state" where
  "clearPrevious s =
     (case pollingTimer s of None \<Rightarrow> s
      | Some h \<Rightarrow> if h \<noteq> 0 then clearInterval (pollingTimer s) s else s)"

definition startJobPolling :: "env \<Rightarrow> int \<Rightarrow> jsval \<Rightarrow> jsval \<Rightarrow> state \<Rightarrow> state" where
  "startJobPolling e now jid jty s =
     (let s1 = clearPrevious s;
          s2 = s1\<lparr>currentJob := Some [(''job_id'', jid), (''job_type'', jty)]\<rparr>;
          c = \<lparr>sid = nextHandle s2, jobId = jid, startTime = now\<rparr>;
          s3 = emit (Some c)
                 [ShowStatusPanel,
                  SetBadge ''status-badge processing'' (translate e ''processing'')] s2;
          s4 = poll_send c s3;
          (h, s5) = setInterval c s4
      in s5\<lparr>pollingTimer := Some h\<rparr>)"

subsection \<open>Submission (lines 510-644)\<close>

text \<open>
  The three submit functions share their code from the \<^verbatim>\<open>await fetch\<close> on. \<open>submit_try\<close>
  is the rest of the \<^verbatim>\<open>try\<close> block once the request has settled: \<open>Inl\<close> is the error it
  throws (every throw comes before anything is shown), \<open>Inr\<close> the state it leaves.
\<close>

definition submit_try :: "env \<Rightarrow> int \<Rightarrow> string \<Rightarrow> response settled \<Rightarrow> state \<Rightarrow> jsval + state" where
  "submit_try e now jty outcome s =
     (case outcome of
        Rejects x \<Rightarrow> Inl x
      | Resolves r \<Rightarrow>
          (case json r of
             Rejects x \<Rightarrow> Inl x
           | Resolves body \<Rightarrow>
               if \<not> ok r then Inl (or_else (get body ''detail'') (Str ''Generation failed''))
               else (case showToast e None (Str (translate e ''processing'' @ ''...''))
                            ''success'' s of
                       Inl x \<Rightarrow> Inl x
                     | Inr s1 \<Rightarrow>
                         Inr (startJobPolling e now (get body ''job_id'') (Str jty) s1))))"

text \<open>
  The whole continuation: \<^verbatim>\<open>try\<close>, \<^verbatim>\<open>catch\<close> (a toast with the error's message) and
  \<^verbatim>\<open>finally\<close>; the first component is how the promise of the \<^verbatim>\<open>async\<close> function settles.
  An error thrown by \<^verbatim>\<open>showToast\<close> inside the \<^verbatim>\<open>catch\<close> leaves the function after the
  \<^verbatim>\<open>finally\<close> and rejects the promise.
\<close>

definition submit_settle :: "env \<Rightarrow> int \<Rightarrow> string \<Rightarrow> response settled \<Rightarrow> state \<Rightarrow> unit settled \<times> state" where
  "submit_settle e now jty outcome s =
     (case submit_try e now jty outcome s of
        Inl x \<Rightarrow>
          (case showToast e None (Str (ToString x)) ''error'' s of
             Inl y \<Rightarrow> (Rejects y, emit None [SetButtonLoading False] s)
           | Inr s1 \<Rightarrow> (Resolves (), emit None [SetButtonLoading False] s1))
      | Inr s' \<Rightarrow> (Resolves (), emit None [SetButtonLoading False] s'))"

definition submitFaceGeneration :: "env \<Rightarrow> int \<Rightarrow> response settled \<Rightarrow> state \<Rightarrow> unit settled \<times> state" where
  "submitFaceGeneration e now = submit_settle e now ''face''"

definition submitVideoGeneration :: "env \<Rightarrow> int \<Rightarrow> response settled \<Rightarrow> state \<Rightarrow> unit settled \<times> state" where
  "submitVideoGeneration e now = submit_settle e now ''video''"

definition submitLipsyncGeneration :: "env \<Rightarrow> int \<Rightarrow> response settled \<Rightarrow> state \<Rightarrow> unit settled \<times> state" where
  "submitLipsyncGeneration e now = submit_settle e now ''lipsync''"

subsection \<open>The event loop\<close>

text \<open>
  What can happen to the poller: a call of \<^verbatim>\<open>startJobPolling\<close>, the browser firing the
  interval with a given handle, a status request settling, and a call of \<^verbatim>\<open>setApiBase\<close>.
  Each event comes with the value \<^verbatim>\<open>Date.now()\<close> has while its handler runs.

  The browser fires a running interval every \<open>POLLING_INTERVAL\<close> milliseconds, and a
  request settles once, after it was sent. The model lets a running interval fire, and a
  request in flight settle, at any time and in any order: its runs include all those of
  the browser, so what holds for every run of the model holds for every run of the code.
\<close>

definition POLLING_INTERVAL :: int where
  "POLLING_INTERVAL = 2000"

datatype event =
    Start jsval jsval
  | Tick nat
  | Settle nat "response settled"
  | Configure "string option"

definition step :: "env \<Rightarrow> state \<Rightarrow> int \<times> event \<Rightarrow> state" where
  "step e s te =
     (case snd te of
        Start jid jty \<Rightarrow> startJobPolling e (fst te) jid jty s
      | Tick h \<Rightarrow>
          (case map_of (intervals s) h of None \<Rightarrow> s | Some c \<Rightarrow> poll_send c s)
      | Settle r outcome \<Rightarrow>
          (case map_of (inflight s) r of None \<Rightarrow> s
           | Some c \<Rightarrow>
               poll_settle e (fst te) c outcome
                 (s\<lparr>inflight := filter (\<lambda>p. fst p \<noteq> r) (inflight s)\<rparr>))
      | Configure url \<Rightarrow> setApiBase e url s)"

definition run :: "env \<Rightarrow> state \<Rightarrow> (int \<times> event) list \<Rightarrow> state" where
  "run e s tes = foldl (step e) s tes"

section \<open>Notions the properties are stated with\<close>

text \<open>A status response with a 2xx code whose body is the JSON object \<open>job\<close>.\<close>

definition success :: "obj \<Rightarrow> response settled" where
  "success job = Resolves \<lparr>ok = True, json = Resolves job\<rparr>"

text \<open>The two statuses on which \<^verbatim>\<open>poll\<close> stops the timer.\<close>

definition terminal :: "obj \<Rightarrow> bool" where
  "terminal job = (get job ''status'' = Str ''completed'' \<or> get job ''status'' = Str ''failed'')"

text \<open>
  A transport failure: \<^verbatim>\<open>fetch\<close> rejects, or the response is not 2xx; \<open>thrown\<close> is the
  error that reaches the \<^verbatim>\<open>catch\<close> of \<^verbatim>\<open>poll\<close> then.
\<close>

definition transport_failure :: "response settled \<Rightarrow> bool" where
  "transport_failure outcome = (case outcome of Rejects x \<Rightarrow> True | Resolves r \<Rightarrow> \<not> ok r)"

definition thrown :: "response settled \<Rightarrow> jsval" where
  "thrown outcome =
     (case outcome of Rejects x \<Rightarrow> x | Resolves r \<Rightarrow> Str ''Failed to get job status'')"

text \<open>
  The calls that pass a terminal record on to the page: \<^verbatim>\<open>showResult(job)\<close> and
  \<^verbatim>\<open>addToHistory(job)\<close> for a completed job, the error toast for a failed one.
  \<open>deliveries c s\<close> lists those made by the closure \<open>c\<close>, in order.
\<close>

fun delivery :: "effect \<Rightarrow> bool" where
  "delivery (ShowResult job) = True"
| "delivery (AddToHistory job) = True"
| "delivery (ShowToast txt ty) = (ty = ''error'')"
| "delivery _ = False"

definition deliveries :: "poller \<Rightarrow> state \<Rightarrow> effect list" where
  "deliveries c s =
     map snd (filter (\<lambda>p. fst p = Some c \<and> delivery (snd p)) (effects s))"

text \<open>
  The text of the toast a terminal branch of \<^verbatim>\<open>poll\<close> shows, and whether \<^verbatim>\<open>showToast\<close>
  throws on it.
\<close>

definition toast_text :: "env \<Rightarrow> obj \<Rightarrow> string" where
  "toast_text e job =
     (if get job ''status'' = Str ''completed'' then translate e ''completed'' @ ''!''
      else ToString (or_else (get job ''error'') (Str (translate e ''failed''))))"

definition toast_throws :: "env \<Rightarrow> obj \<Rightarrow> bool" where
  "toast_throws e job = (terminal job \<and> swallows e (toast_text e job))"

text \<open>
  What holds of the timers in every state the event loop reaches: a running interval is
  the one \<open>pollingTimer\<close> names, there is at most one, and handles and closures are
  older than the next handle.
\<close>

definition consistent :: "state \<Rightarrow> bool" where
  "consistent s =
     ((\<forall>p \<in> set (intervals s).
         pollingTimer s = Some (fst p) \<and> fst p \<noteq> 0 \<and> sid (snd p) = fst p) \<and>
      length (intervals s) \<le> 1 \<and> 0 < nextHandle s \<and>
      (\<forall>p \<in> set (intervals s). fst p < nextHandle s) \<and>
      (\<forall>p \<in> set (inflight s). sid (snd p) < nextHandle s))"

text \<open>A closure with no timer and no request left, and a handle with no timer left.\<close>

definition retired :: "poller \<Rightarrow> state \<Rightarrow> bool" where
  "retired c s =
     ((\<forall>p \<in> set (intervals s). snd p \<noteq> c) \<and> (\<forall>p \<in> set (inflight s). snd p \<noteq> c) \<and>
      sid c < nextHandle s)"

definition gone :: "nat \<Rightarrow> state \<Rightarrow> bool" where
  "gone h s = ((\<forall>p \<in> set (intervals s). fst p \<noteq> h) \<and> h < nextHandle s)"

text \<open>The times shown by the closure \<open>c\<close>, in the order they were shown.\<close>

fun shown_time :: "poller \<Rightarrow> poller option \<times> effect \<Rightarrow> int list" where
  "shown_time c (Some c', SetTime x) = (if c' = c then [x] else [])"
| "shown_time c _ = []"

definition shown_times :: "poller \<Rightarrow> state \<Rightarrow> int list" where
  "shown_times c s = concat (map (shown_time c) (effects s))"

text \<open>
  \<open>answers outcome\<close>: the outcome is a 2xx response with a JSON body. The events that
  leave the poller undisturbed are all but a call of \<^verbatim>\<open>startJobPolling\<close> and such an
  answer to one of the requests \<open>rs\<close>.
\<close>

definition answers :: "response settled \<Rightarrow> bool" where
  "answers outcome =
     (case outcome of Rejects x \<Rightarrow> False
      | Resolves r \<Rightarrow> ok r \<and> (case json r of Rejects x \<Rightarrow> False | Resolves job \<Rightarrow> True))"

fun undisturbed :: "nat list \<Rightarrow> int \<times> event \<Rightarrow> bool" where
  "undisturbed rs (t, Start jid jty) = False"
| "undisturbed rs (t, Settle r outcome) = (r \<in> set rs \<longrightarrow> \<not> answers outcome)"
| "undisturbed rs (t, Tick h) = True"
| "undisturbed rs (t, Configure url) = True"

text \<open>
  The functions of the source a caller can invoke on the poller. \<^verbatim>\<open>startJobPolling\<close> is
  the only one: \<^verbatim>\<open>poll\<close> is local to it, and no other function of the source calls
  \<^verbatim>\<open>clearInterval\<close> or assigns \<^verbatim>\<open>state.pollingTimer\<close>.
\<close>

datatype poller_call = StartJobPolling jsval jsval

definition invoke :: "env \<Rightarrow> int \<Rightarrow> poller_call \<Rightarrow> state \<Rightarrow> state" where
  "invoke e now call s =
     (case call of StartJobPolling jid jty \<Rightarrow> startJobPolling e now jid jty s)"

text \<open>
  The message of the error a submit function throws for a response that is not 2xx: the
  text it passes to \<^verbatim>\<open>showToast\<close>.
\<close>

definition failure_cause :: "response \<Rightarrow> string" where
  "failure_cause r =
     ToString (case json r of Rejects x \<Rightarrow> x
      | Resolves body \<Rightarrow> or_else (get body ''detail'') (Str ''Generation failed''))"

subsection \<open>Sample inputs\<close>

text \<open>
  A page on localhost with no translations; of the messages that swallow the close
  button it has those that start a comment.
\<close>

definition env0 :: env where
  "env0 = \<lparr>translate = (\<lambda>k. k), hostname = ''localhost'',
     origin = ''http://localhost:8000'', new_URL = (\<lambda>x. Inl (Str ''Invalid URL'')),
     swallows = (\<lambda>m. take 4 m = ''<!--''),
     null_message = ''closeBtn is null''\<rparr>"

definition poller1 :: poller where
  "poller1 = \<lparr>sid = 1, jobId = Str ''job-1'', startTime = 0\<rparr>"

definition working1 :: obj where
  "working1 = [(''job_id'', Str ''job-1''), (''job_type'', Str ''face''),
     (''status'', Str ''processing''), (''progress'', Num 40), (''message'', Str ''Working''),
     (''result_url'', Null), (''error'', Null)]"

definition done1 :: obj where
  "done1 = [(''job_id'', Str ''job-1''), (''job_type'', Str ''face''),
     (''status'', Str ''completed''), (''progress'', Num 100), (''message'', Str ''Done''),
     (''result_url'', Str ''/storage/faces/job-1.png''), (''error'', Null)]"

definition failed1 :: obj where
  "failed1 = [(''job_id'', Str ''job-1''), (''job_type'', Str ''face''),
     (''status'', Str ''failed''), (''progress'', Num 40), (''message'', Str ''Failed''),
     (''result_url'', Null), (''error'', Str ''upstream timeout'')]"

text \<open>A failed job whose error text starts a comment.\<close>

definition failed2 :: obj where
  "failed2 = [(''status'', Str ''failed''), (''error'', Str ''<!-- upstream'')]"

text \<open>The state after \<^verbatim>\<open>startJobPolling('job-1', 'face')\<close> at time 0.\<close>

definition started1 :: state where
  "started1 = run env0 init [(0, Start (Str ''job-1'') (Str ''face''))]"

text \<open>
  A run in which the first response takes longer than the polling period: the timer
  fires at 2000 ms while request 0 is still in flight, and both responses say completed.
\<close>

definition overlap :: "(int \<times> event) list" where
  "overlap = [(0, Start (Str ''job-1'') (Str ''face'')), (POLLING_INTERVAL, Tick 1),
     (2500, Settle 0 (success done1)), (2600, Settle 1 (success done1))]"

text \<open>
  The same two requests answered out of order: request 1 says completed at 2300 ms, and
  request 0, sent first, says processing at 2600 ms.
\<close>

definition stale :: "(int \<times> event) list" where
  "stale = [(0, Start (Str ''job-1'') (Str ''face'')), (POLLING_INTERVAL, Tick 1),
     (2300, Settle 1 (success done1)), (2600, Settle 0 (success working1))]"

text \<open>A run with two polls, answered at 1200 ms and 3400 ms.\<close>

definition two_polls :: "(int \<times> event) list" where
  "two_polls = [(0, Start (Str ''job-1'') (Str ''face'')), (1200, Settle 0 (success working1)),
     (POLLING_INTERVAL, Tick 1), (3400, Settle 1 (success done1))]"

text \<open>
  Answers to a submission that are not 2xx: with a text as detail, with a number, and
  with a text that starts a comment.
\<close>

definition rejected1 :: response where
  "rejected1 = \<lparr>ok = False, json = Resolves [(''detail'', Str ''Prompt is required'')]\<rparr>"

definition rejected2 :: response where
  "rejected2 = \<lparr>ok = False, json = Resolves [(''detail'', Num 422)]\<rparr>"

definition rejected3 :: response where
  "rejected3 = \<lparr>ok = False, json = Resolves [(''detail'', Str ''<!-- x'')]\<rparr>"

section \<open>How each run changes the state\<close>

subsection \<open>Fields after each function\<close>

lemma emit_simps [simp]:
  "effects (emit c es s) = effects s @ map (Pair c) es"
  "intervals (emit c es s) = intervals s"
  "inflight (emit c es s) = inflight s"
  "pollingTimer (emit c es s) = pollingTimer s"
  "currentJob (emit c es s) = currentJob s"
  "nextHandle (emit c es s) = nextHandle s"
  "nextRequest (emit c es s) = nextRequest s"
  "API_BASE (emit c es s) = API_BASE s"
  by (simp_all add: emit_def)

lemma clearInterval_simps [simp]:
  "effects (clearInterval h s) = effects s"
  "inflight (clearInterval h s) = inflight s"
  "pollingTimer (clearInterval h s) = pollingTimer s"
  "currentJob (clearInterval h s) = currentJob s"
  "nextHandle (clearInterval h s) = nextHandle s"
  "nextRequest (clearInterval h s) = nextRequest s"
  "API_BASE (clearInterval h s) = API_BASE s"
  by (simp_all add: clearInterval_def split: option.splits)

lemma intervals_clearInterval:
  "intervals (clearInterval h s) =
     (case h of None \<Rightarrow> intervals s | Some k \<Rightarrow> filter (\<lambda>p. fst p \<noteq> k) (intervals s))"
  by (simp add: clearInterval_def split: option.splits)

lemma clearPrevious_simps [simp]:
  "effects (clearPrevious s) = effects s"
  "inflight (clearPrevious s) = inflight s"
  "pollingTimer (clearPrevious s) = pollingTimer s"
  "currentJob (clearPrevious s) = currentJob s"
  "nextHandle (clearPrevious s) = nextHandle s"
  "nextRequest (clearPrevious s) = nextRequest s"
  "API_BASE (clearPrevious s) = API_BASE s"
  by (simp_all add: clearPrevious_def split: option.splits)

subsection \<open>The invariant of the timers\<close>

text \<open>
  Cancelling the interval \<open>pollingTimer\<close> names leaves none running, since no other one
  runs.
\<close>

lemma consistent_handle:
  "consistent s \<Longrightarrow> p \<in> set (intervals s) \<Longrightarrow> pollingTimer s = Some (fst p) \<and> fst p \<noteq> 0"
  by (simp add: consistent_def)

lemma consistent_clear: "consistent s \<Longrightarrow> intervals (clearInterval (pollingTimer s) s) = []"
proof -
  assume w: "consistent s"
  show ?thesis
  proof (cases "pollingTimer s")
    case None
    have "intervals s = []"
    proof (cases "intervals s")
      case (Cons p ps)
      then have "p \<in> set (intervals s)" by simp
      from consistent_handle [OF w this] None show ?thesis by simp
    qed simp
    then show ?thesis using None by (simp add: intervals_clearInterval)
  next
    case (Some k)
    have "\<forall>p \<in> set (intervals s). fst p = k"
      using consistent_handle [OF w] Some by auto
    then show ?thesis using Some
      by (simp add: intervals_clearInterval filter_empty_conv)
  qed
qed

lemma consistent_clearPrevious: "consistent s \<Longrightarrow> intervals (clearPrevious s) = []"
proof -
  assume w: "consistent s"
  show ?thesis
  proof (cases "pollingTimer s")
    case None
    have "intervals s = []"
    proof (cases "intervals s")
      case (Cons p ps)
      then have "p \<in> set (intervals s)" by simp
      from consistent_handle [OF w this] None show ?thesis by simp
    qed simp
    then show ?thesis using None by (simp add: clearPrevious_def)
  next
    case (Some k)
    show ?thesis
    proof (cases "k = 0")
      case True
      have "intervals s = []"
      proof (cases "intervals s")
        case (Cons p ps)
        then have "p \<in> set (intervals s)" by simp
        from consistent_handle [OF w this] Some True show ?thesis by auto
      qed simp
      then show ?thesis using Some True by (simp add: clearPrevious_def)
    next
      case False
      then show ?thesis using consistent_clear [OF w] Some by (simp add: clearPrevious_def)
    qed
  qed
qed

lemma poll_send_simps [simp]:
  "effects (poll_send c s) = effects s @ [(Some c, FetchStatus (API_BASE s) (jobId c))]"
  "intervals (poll_send c s) = intervals s"
  "inflight (poll_send c s) = inflight s @ [(nextRequest s, c)]"
  "pollingTimer (poll_send c s) = pollingTimer s"
  "currentJob (poll_send c s) = currentJob s"
  "nextHandle (poll_send c s) = nextHandle s"
  "nextRequest (poll_send c s) = Suc (nextRequest s)"
  "API_BASE (poll_send c s) = API_BASE s"
  by (simp_all add: poll_send_def)

lemma start_simps:
  "intervals (startJobPolling e now jid jty s) =
     intervals (clearPrevious s) @ [(nextHandle s, \<lparr>sid = nextHandle s, jobId = jid, startTime = now\<rparr>)]"
  "pollingTimer (startJobPolling e now jid jty s) = Some (nextHandle s)"
  "nextHandle (startJobPolling e now jid jty s) = Suc (nextHandle s)"
  "inflight (startJobPolling e now jid jty s) =
     inflight s @ [(nextRequest s, \<lparr>sid = nextHandle s, jobId = jid, startTime = now\<rparr>)]"
  "currentJob (startJobPolling e now jid jty s) = Some [(''job_id'', jid), (''job_type'', jty)]"
  "effects (startJobPolling e now jid jty s) =
     effects s @ map (Pair (Some \<lparr>sid = nextHandle s, jobId = jid, startTime = now\<rparr>))
       [ShowStatusPanel, SetBadge ''status-badge processing'' (translate e ''processing''),
        FetchStatus (API_BASE s) jid]"
  by (simp_all add: startJobPolling_def setInterval_def Let_def)

lemma settle_simps:
  "inflight (poll_settle e now c outcome s) = inflight s"
  "nextHandle (poll_settle e now c outcome s) = nextHandle s"
  "pollingTimer (poll_settle e now c outcome s) = pollingTimer s"
  by (simp_all add: poll_settle_def poll_try_def showToast_def console_error_def Let_def split: settled.splits sum.splits)

lemma settle_intervals:
  "intervals (poll_settle e now c outcome s) = intervals s \<or>
   intervals (poll_settle e now c outcome s) = intervals (clearInterval (pollingTimer s) s)"
  by (simp add: poll_settle_def poll_try_def showToast_def console_error_def Let_def intervals_clearInterval
      split: settled.splits option.splits sum.splits)

lemma setApiBase_simps [simp]:
  "effects (setApiBase e url s) = effects s"
  "intervals (setApiBase e url s) = intervals s"
  "inflight (setApiBase e url s) = inflight s"
  "pollingTimer (setApiBase e url s) = pollingTimer s"
  "currentJob (setApiBase e url s) = currentJob s"
  "nextHandle (setApiBase e url s) = nextHandle s"
  "nextRequest (setApiBase e url s) = nextRequest s"
  by (simp_all add: setApiBase_def Let_def)

text \<open>Every function keeps the invariant, so every run does.\<close>

lemma consistent_init: "consistent init"
  by (simp add: consistent_def init_def)

lemma consistent_start: "consistent s \<Longrightarrow> consistent (startJobPolling e now jid jty s)"
  using consistent_clearPrevious [of s]
  by (auto simp: consistent_def start_simps less_Suc_eq)

lemma consistent_settle: "consistent s \<Longrightarrow> consistent (poll_settle e now c outcome s)"
  using settle_intervals [of e now c outcome s] consistent_clear [of s]
  by (auto simp: consistent_def settle_simps)

lemma consistent_step: "consistent s \<Longrightarrow> consistent (step e s te)"
proof (cases "snd te")
  case (Start jid jty)
  assume "consistent s"
  then show ?thesis using Start by (simp add: step_def consistent_start)
next
  case (Tick h)
  assume "consistent s"
  then show ?thesis using Tick
    by (fastforce simp: step_def consistent_def split: option.splits dest!: map_of_SomeD)
next
  case (Settle r outcome)
  assume w: "consistent s"
  show ?thesis
  proof (cases "map_of (inflight s) r")
    case None
    then show ?thesis using w Settle by (simp add: step_def)
  next
    case (Some c)
    from w have "consistent (s\<lparr>inflight := filter (\<lambda>p. fst p \<noteq> r) (inflight s)\<rparr>)"
      by (auto simp: consistent_def)
    then show ?thesis using Settle Some by (simp add: step_def consistent_settle)
  qed
next
  case (Configure url)
  assume "consistent s"
  then show ?thesis using Configure by (simp add: step_def consistent_def)
qed

lemma run_Nil [simp]: "run e s [] = s"
  by (simp add: run_def)

lemma run_Cons [simp]: "run e s (te # tes) = run e (step e s te) tes"
  by (simp add: run_def)

lemma consistent_run: "consistent s \<Longrightarrow> consistent (run e s tes)"
  by (induction tes arbitrary: s) (simp_all add: consistent_step)

lemma consistent_reachable: "consistent (run e init tes)"
  by (simp add: consistent_run consistent_init)

subsection \<open>Evaluating sample runs\<close>

lemmas eval_defs = run_def step_def startJobPolling_def poll_send_def poll_settle_def
  poll_try_def showToast_def
  clearPrevious_def clearInterval_def setInterval_def emit_def init_def console_error_def
  success_def get_def elapsed_def POLLING_INTERVAL_def Let_def

lemma started1_eq:
  "started1 = \<lparr>API_BASE = ''http://localhost:8000/api'',
     currentJob = Some [(''job_id'', Str ''job-1''), (''job_type'', Str ''face'')],
     pollingTimer = Some 1, intervals = [(1, poller1)], nextHandle = 2,
     inflight = [(0, poller1)], nextRequest = 1,
     effects = [(Some poller1, ShowStatusPanel),
       (Some poller1, SetBadge ''status-badge processing'' ''processing''),
       (Some poller1, FetchStatus ''http://localhost:8000/api'' (Str ''job-1''))]\<rparr>"
  by (simp add: started1_def eval_defs env0_def poller1_def)

subsection \<open>Closures and handles that are finished\<close>

text \<open>
  A closure without timer and request never gets one again and passes no further record
  on; a handle without timer never fires again.
\<close>

lemma retired_step:
  assumes "retired c s"
  shows "retired c (step e s te) \<and> deliveries c (step e s te) = deliveries c s"
proof (cases "snd te")
  case (Start jid jty)
  then show ?thesis using assms
    by (auto simp: step_def retired_def start_simps deliveries_def clearPrevious_def
        intervals_clearInterval split: option.splits)
next
  case (Tick h)
  then show ?thesis using assms
    by (auto simp: step_def retired_def deliveries_def split: option.splits dest!: map_of_SomeD)
next
  case (Settle r outcome)
  show ?thesis
  proof (cases "map_of (inflight s) r")
    case None
    then show ?thesis using assms Settle by (simp add: step_def)
  next
    case (Some c')
    then have "c' \<noteq> c" using assms by (auto simp: retired_def dest!: map_of_SomeD)
    then show ?thesis using assms Settle Some
      by (auto simp: step_def retired_def deliveries_def poll_settle_def poll_try_def showToast_def console_error_def
          Let_def intervals_clearInterval split: settled.splits option.splits sum.splits)
  qed
next
  case (Configure url)
  then show ?thesis using assms by (simp add: step_def retired_def deliveries_def)
qed

lemma retired_run:
  "retired c s \<Longrightarrow> retired c (run e s tes) \<and> deliveries c (run e s tes) = deliveries c s"
  by (induction tes arbitrary: s) (simp_all add: retired_step)

lemma gone_step: "gone h s \<Longrightarrow> gone h (step e s te)"
proof (cases "snd te")
  case (Start jid jty)
  assume "gone h s"
  then show ?thesis using Start
    by (auto simp: step_def gone_def start_simps clearPrevious_def
        intervals_clearInterval split: option.splits)
next
  case (Tick k)
  assume "gone h s"
  then show ?thesis using Tick
    by (auto simp: step_def gone_def split: option.splits)
next
  case (Settle r outcome)
  assume "gone h s"
  then show ?thesis using Settle
    by (auto simp: step_def gone_def poll_settle_def poll_try_def showToast_def console_error_def
          Let_def intervals_clearInterval split: settled.splits option.splits sum.splits)
next
  case (Configure url)
  assume "gone h s"
  then show ?thesis using Configure by (simp add: step_def gone_def)
qed

lemma gone_run: "gone h s \<Longrightarrow> gone h (run e s tes)"
  by (induction tes arbitrary: s) (simp_all add: gone_step)

lemma gone_tick: "gone h s \<Longrightarrow> step e s (t, Tick h) = s"
proof -
  assume "gone h s"
  then have "map_of (intervals s) h = None"
    by (auto simp: gone_def map_of_eq_None_iff)
  then show ?thesis by (simp add: step_def)
qed

lemma terminal_settle:
  assumes "terminal job"
  shows "intervals (poll_settle e now c (success job) s)
           = intervals (clearInterval (pollingTimer s) s)"
    and "deliveries c (poll_settle e now c (success job) s) = deliveries c s @
           (if get job ''status'' = Str ''completed''
            then ShowResult job # (if toast_throws e job then [] else [AddToHistory job])
            else (if toast_throws e job then [] else [ShowToast (toast_text e job) ''error'']))"
  using assms
  by (auto simp: terminal_def success_def poll_settle_def poll_try_def showToast_def
      console_error_def Let_def deliveries_def toast_throws_def toast_text_def
      intervals_clearInterval split: option.splits)

lemma settle_currentJob:
  "currentJob (poll_settle e now c (success job) s) =
     (if toast_throws e job then currentJob s else Some job)"
  by (auto simp: terminal_def success_def poll_settle_def poll_try_def showToast_def
      console_error_def Let_def toast_throws_def toast_text_def)

subsection \<open>Single runs of the poll\<close>

lemma tick_sends:
  "map_of (intervals s) h = Some c \<Longrightarrow>
   inflight (step e s (t, Tick h)) = inflight s @ [(nextRequest s, c)]"
  by (simp add: step_def)

lemma settle_failure:
  assumes "transport_failure outcome"
  shows "poll_settle e now c outcome s =
           s\<lparr>effects := effects s @ [(Some c, ConsoleError (thrown outcome))]\<rparr>"
  using assms
  by (auto simp: transport_failure_def thrown_def poll_settle_def poll_try_def showToast_def console_error_def emit_def
      split: settled.splits sum.splits)

lemma settle_nonterminal:
  assumes "\<not> terminal job"
  shows "poll_settle e now c (success job) s =
           s\<lparr>effects := effects s @
                [(Some c, SetProgress (get job ''progress'')),
                 (Some c, SetMessage (get job ''message'')),
                 (Some c, SetTime (elapsed (startTime c) now))],
              currentJob := Some job\<rparr>"
  using assms
  by (auto simp: terminal_def success_def poll_settle_def poll_try_def showToast_def emit_def Let_def)

lemma settle_removes:
  "inflight (step e s (now, Settle r outcome)) = filter (\<lambda>p. fst p \<noteq> r) (inflight s)"
proof (cases "map_of (inflight s) r")
  case None
  then have "\<forall>p \<in> set (inflight s). fst p \<noteq> r"
    by (auto simp: map_of_eq_None_iff)
  then have "filter (\<lambda>p. fst p \<noteq> r) (inflight s) = inflight s"
    by (simp add: filter_id_conv)
  then show ?thesis using None by (simp add: step_def)
next
  case (Some c)
  then show ?thesis by (simp add: step_def settle_simps)
qed

subsection \<open>The cancelling step\<close>

lemma clearPrevious_noop: "intervals s = [] \<Longrightarrow> clearPrevious s = s"
  by (simp add: clearPrevious_def clearInterval_def split: option.splits)

lemma clearPrevious_twice: "clearPrevious (clearPrevious s) = clearPrevious s"
  by (simp add: clearPrevious_def clearInterval_def split: option.splits)

lemma clearPrevious_eq: "consistent s \<Longrightarrow> clearPrevious s = s\<lparr>intervals := []\<rparr>"
proof -
  assume w: "consistent s"
  have "clearPrevious s = s\<lparr>intervals := intervals (clearPrevious s)\<rparr>"
    by (simp add: clearPrevious_def clearInterval_def split: option.splits)
  then show ?thesis using consistent_clearPrevious [OF w] by simp
qed

subsection \<open>Times shown along a run\<close>

lemma elapsed_mono: "a \<le> b \<Longrightarrow> elapsed st a \<le> elapsed st b"
  by (simp add: elapsed_def zdiv_mono1)

lemma shown_times_step:
  "shown_times c (step e s (t, ev)) = shown_times c s \<or>
   shown_times c (step e s (t, ev)) = shown_times c s @ [elapsed (startTime c) t]"
proof (cases ev)
  case (Start jid jty)
  then show ?thesis by (simp add: step_def shown_times_def start_simps)
next
  case (Tick h)
  then show ?thesis by (simp add: step_def shown_times_def split: option.splits)
next
  case (Settle r outcome)
  then show ?thesis
    by (simp add: step_def shown_times_def poll_settle_def poll_try_def showToast_def console_error_def Let_def
        split: option.splits settled.splits sum.splits)
next
  case (Configure url)
  then show ?thesis by (simp add: step_def shown_times_def)
qed

lemma shown_times_run:
  "sorted (map fst tes) \<Longrightarrow> sorted (shown_times c s) \<Longrightarrow>
   (\<forall>x \<in> set (shown_times c s). \<forall>te \<in> set tes. x \<le> elapsed (startTime c) (fst te)) \<Longrightarrow>
   sorted (shown_times c (run e s tes))"
proof (induction tes arbitrary: s)
  case Nil
  then show ?case by simp
next
  case (Cons te tes)
  obtain t ev where te: "te = (t, ev)" by (cases te)
  let ?s' = "step e s (t, ev)"
  from Cons.prems(1) have later: "\<forall>te' \<in> set tes. t \<le> fst te'" and srt: "sorted (map fst tes)"
    by (auto simp: te)
  have "sorted (shown_times c ?s') \<and>
        (\<forall>x \<in> set (shown_times c ?s'). \<forall>te' \<in> set tes. x \<le> elapsed (startTime c) (fst te'))"
    using shown_times_step [of c e s t ev]
  proof
    assume "shown_times c ?s' = shown_times c s"
    then show ?thesis using Cons.prems(2,3) by simp
  next
    assume eq: "shown_times c ?s' = shown_times c s @ [elapsed (startTime c) t]"
    have "\<forall>x \<in> set (shown_times c s). x \<le> elapsed (startTime c) t"
      using Cons.prems(3) by (simp add: te)
    then have 1: "sorted (shown_times c ?s')"
      using Cons.prems(2) by (simp add: eq sorted_append)
    have 2: "\<forall>te' \<in> set tes. elapsed (startTime c) t \<le> elapsed (startTime c) (fst te')"
      using later by (simp add: elapsed_mono)
    show ?thesis using 1 2 Cons.prems(3) by (auto simp: eq)
  qed
  then show ?case using Cons.IH [OF srt, of ?s'] by (simp add: te)
qed

subsection \<open>Events that leave the current job\<close>

text \<open>
  With no interval running, no request is sent; the only requests that can still
  settle are those in flight.
\<close>

lemma settle_no_answer:
  "\<not> answers outcome \<Longrightarrow> currentJob (poll_settle e now c outcome s) = currentJob s"
  by (auto simp: answers_def poll_settle_def poll_try_def console_error_def
      split: settled.splits)

lemma undisturbed_step:
  assumes "intervals s = []" and "set (map fst (inflight s)) \<subseteq> set rs"
    and "undisturbed rs te"
  shows "intervals (step e s te) = [] \<and> set (map fst (inflight (step e s te))) \<subseteq> set rs \<and>
         currentJob (step e s te) = currentJob s"
proof (cases te)
  case (Pair t ev)
  show ?thesis
  proof (cases ev)
    case (Start jid jty)
    then show ?thesis using assms(3) Pair by simp
  next
    case (Tick h)
    then show ?thesis using assms(1,2) Pair by (simp add: step_def)
  next
    case (Settle r outcome)
    show ?thesis
    proof (cases "map_of (inflight s) r")
      case None
      then show ?thesis using assms(1,2) Settle Pair by (simp add: step_def)
    next
      case (Some c)
      let ?s0 = "s\<lparr>inflight := filter (\<lambda>p. fst p \<noteq> r) (inflight s)\<rparr>"
      have st: "step e s te = poll_settle e t c outcome ?s0"
        using Some Settle Pair by (simp add: step_def)
      from Some have "r \<in> fst ` set (inflight s)"
        by (metis map_of_eq_None_iff option.distinct(1))
      with assms(2) have "r \<in> set rs" by auto
      with assms(3) Settle Pair have na: "\<not> answers outcome" by simp
      have i: "intervals (poll_settle e t c outcome ?s0) = []"
        using settle_intervals [of e t c outcome ?s0] assms(1)
        by (auto simp: intervals_clearInterval split: option.splits)
      have f: "set (map fst (inflight (poll_settle e t c outcome ?s0))) \<subseteq> set rs"
        using assms(2) by (auto simp: settle_simps)
      have j: "currentJob (poll_settle e t c outcome ?s0) = currentJob s"
        using settle_no_answer [OF na, of e t c ?s0] by simp
      show ?thesis using i f j by (simp add: st)
    qed
  next
    case (Configure url)
    then show ?thesis using assms(1,2) Pair by (simp add: step_def)
  qed
qed

lemma undisturbed_run:
  "intervals s = [] \<Longrightarrow> set (map fst (inflight s)) \<subseteq> set rs \<Longrightarrow>
   list_all (undisturbed rs) tes \<Longrightarrow> currentJob (run e s tes) = currentJob s"
proof (induction tes arbitrary: s)
  case Nil
  then show ?case by simp
next
  case (Cons te tes)
  from Cons.prems have u: "undisturbed rs te" and rest: "list_all (undisturbed rs) tes"
    by simp_all
  note st = undisturbed_step [OF Cons.prems(1,2) u, of e]
  with rest have "currentJob (run e (step e s te) tes) = currentJob (step e s te)"
    using Cons.IH [of "step e s te"] by simp
  with st show ?case by simp
qed

subsection \<open>Trimming and the trailing slash\<close>

lemma trim_id: "u \<noteq> [] \<Longrightarrow> \<not> isSpace (hd u) \<Longrightarrow> \<not> isSpace (last u) \<Longrightarrow> trim u = u"
proof -
  assume u: "u \<noteq> []" and h: "\<not> isSpace (hd u)" and l: "\<not> isSpace (last u)"
  from u h have 1: "dropWhile isSpace u = u" by (cases u) auto
  from u l have 2: "dropWhile isSpace (rev u) = rev u"
    by (cases "rev u") (auto simp: hd_rev [symmetric])
  show ?thesis by (simp add: trim_def 1 2)
qed

lemma stripSlash_cases:
  "v \<noteq> [] \<Longrightarrow> (last v = CHR ''/'' \<longrightarrow> stripSlash v @ ''/'' = v) \<and>
                (last v \<noteq> CHR ''/'' \<longrightarrow> stripSlash v = v)"
  by (auto simp: stripSlash_def) (metis append_butlast_last_id)

lemma stripSlash_slash:
  "v \<noteq> [] \<Longrightarrow> (stripSlash v \<noteq> [] \<and> last (stripSlash v) = CHR ''/'') = (\<exists>w. v = w @ ''//'')"
proof
  assume v: "v \<noteq> []" and a: "stripSlash v \<noteq> [] \<and> last (stripSlash v) = CHR ''/''"
  show "\<exists>w. v = w @ ''//''"
  proof (cases "last v = CHR ''/''")
    case True
    with v have b: "butlast v \<noteq> [] \<and> last (butlast v) = CHR ''/''"
      using a by (simp add: stripSlash_def)
    have "v = butlast v @ ''/''" using v True by (metis append_butlast_last_id)
    moreover have "butlast v = butlast (butlast v) @ ''/''"
      using b by (metis append_butlast_last_id)
    ultimately have "v = butlast (butlast v) @ ''//''" by (metis append.assoc append_Cons append_Nil)
    then show ?thesis ..
  next
    case False
    with v a show ?thesis by (simp add: stripSlash_def)
  qed
next
  assume v: "v \<noteq> []" and "\<exists>w. v = w @ ''//''"
  then obtain w where "v = w @ ''//''" by blast
  then show "stripSlash v \<noteq> [] \<and> last (stripSlash v) = CHR ''/''"
    by (simp add: stripSlash_def butlast_append)
qed

subsection \<open>A submission that is refused\<close>

lemma submit_settle_failure:
  "\<not> ok r \<Longrightarrow> submit_settle e now jty (Resolves r) s =
     (if swallows e (failure_cause r)
      then (Rejects (Str (null_message e)),
            s\<lparr>effects := effects s @ [(None, SetButtonLoading False)]\<rparr>)
      else (Resolves (),
            s\<lparr>effects := effects s @
              [(None, ShowToast (failure_cause r) ''error''), (None, SetButtonLoading False)]\<rparr>))"
  by (simp add: submit_settle_def submit_try_def showToast_def failure_cause_def emit_def
      split: settled.splits)

section \<open>Transport failures and non-terminal statuses\<close>

text \<open>
  C3. When the status request of a poll fails in transport (\<^verbatim>\<open>fetch\<close> rejects, or the
  response is not 2xx), the run that handles it only logs the error to the console: the
  timers, \<open>pollingTimer\<close> and \<open>currentJob\<close> are as before, no other call is made (no
  timer is cancelled, nothing terminal is shown), and the next tick of a running timer
  sends a new request.
\<close>

theorem transport_failure_swallowed:
  assumes "map_of (inflight s) r = Some c" and "transport_failure outcome"
  shows "let s' = step e s (now, Settle r outcome) in
           intervals s' = intervals s \<and> pollingTimer s' = pollingTimer s \<and>
           currentJob s' = currentJob s \<and>
           effects s' = effects s @ [(Some c, ConsoleError (thrown outcome))] \<and>
           inflight s' = filter (\<lambda>p. fst p \<noteq> r) (inflight s) \<and>
           (\<forall>h c' t. map_of (intervals s) h = Some c' \<longrightarrow>
              inflight (step e s' (t, Tick h)) = inflight s' @ [(nextRequest s, c')])"
  using assms by (simp add: step_def settle_failure Let_def)

theorem transport_failure_swallowed_witness:
  "map_of (inflight started1) 0 = Some poller1 \<and>
   transport_failure (Rejects (Str ''Failed to fetch'')) \<and>
   map_of (intervals started1) 1 = Some poller1 \<and>
   intervals (step env0 started1 (900, Settle 0 (Rejects (Str ''Failed to fetch''))))
     = [(1, poller1)] \<and>
   effects (step env0 started1 (900, Settle 0 (Rejects (Str ''Failed to fetch''))))
     = effects started1 @ [(Some poller1, ConsoleError (Str ''Failed to fetch''))] \<and>
   inflight (step env0 (step env0 started1 (900, Settle 0 (Rejects (Str ''Failed to fetch''))))
      (2000, Tick 1)) = [(1, poller1)]"
proof -
  have a: "map_of (inflight started1) 0 = Some poller1"
    by (simp add: started1_eq)
  have b: "transport_failure (Rejects (Str ''Failed to fetch''))"
    by (simp add: transport_failure_def)
  have c: "map_of (intervals started1) 1 = Some poller1"
    by (simp add: started1_eq)
  from transport_failure_swallowed [OF a b, of env0 900] a b c show ?thesis
    by (simp add: Let_def thrown_def started1_eq)
qed

text \<open>
  C4. When a 2xx status response carries a status other than \<^verbatim>\<open>completed\<close> and
  \<^verbatim>\<open>failed\<close> (\<^verbatim>\<open>pending\<close>, \<^verbatim>\<open>processing\<close>, any other string, or none), the run that handles
  it updates progress, message and time and nothing else on the page: no timer is
  cancelled, and the next tick of a running timer sends a new request.
\<close>

theorem nonterminal_keeps_polling:
  assumes "map_of (inflight s) r = Some c" and "\<not> terminal job"
  shows "let s' = step e s (now, Settle r (success job)) in
           intervals s' = intervals s \<and> pollingTimer s' = pollingTimer s \<and>
           effects s' = effects s @ map (Pair (Some c))
             [SetProgress (get job ''progress''), SetMessage (get job ''message''),
              SetTime (elapsed (startTime c) now)] \<and>
           inflight s' = filter (\<lambda>p. fst p \<noteq> r) (inflight s) \<and>
           (\<forall>h c' t. map_of (intervals s) h = Some c' \<longrightarrow>
              inflight (step e s' (t, Tick h)) = inflight s' @ [(nextRequest s, c')])"
  using assms by (simp add: step_def settle_nonterminal Let_def)

theorem nonterminal_keeps_polling_witness:
  "map_of (inflight started1) 0 = Some poller1 \<and> \<not> terminal working1 \<and>
   \<not> terminal [(''status'', Str ''queued'')] \<and>
   map_of (intervals started1) 1 = Some poller1 \<and>
   intervals (step env0 started1 (900, Settle 0 (success working1))) = [(1, poller1)] \<and>
   intervals (step env0 started1 (900, Settle 0 (success [(''status'', Str ''queued'')])))
     = [(1, poller1)] \<and>
   inflight (step env0 (step env0 started1 (900, Settle 0 (success working1))) (2000, Tick 1))
     = [(1, poller1)]"
proof -
  have a: "map_of (inflight started1) 0 = Some poller1"
    by (simp add: started1_eq)
  have b: "\<not> terminal working1"
    by (simp add: terminal_def working1_def get_def)
  have b': "\<not> terminal [(''status'', Str ''queued'')]"
    by (simp add: terminal_def get_def)
  have c: "map_of (intervals started1) 1 = Some poller1"
    by (simp add: started1_eq)
  from nonterminal_keeps_polling [OF a b, of env0 900]
    nonterminal_keeps_polling [OF a b', of env0 900] a b b' c show ?thesis
    by (simp add: Let_def started1_eq)
qed

section \<open>Terminal responses\<close>

text \<open>
  C1, as stated, fails. The run \<open>overlap\<close> is one session in which two requests are in
  flight when the job completes: each response takes the completed branch, so the
  completed record is passed to \<^verbatim>\<open>showResult\<close> and to \<^verbatim>\<open>addToHistory\<close> twice by the same
  closure.
\<close>

theorem terminal_delivered_twice:
  "deliveries poller1 (run env0 init overlap) =
     [ShowResult done1, AddToHistory done1, ShowResult done1, AddToHistory done1]"
  by (simp add: overlap_def eval_defs env0_def poller1_def done1_def deliveries_def)

text \<open>
  C1, amended. In every state the event loop reaches, the run that handles a 2xx
  response with status completed or failed cancels the timer in that same run, leaving no
  interval running, and no later tick of that session's timer does anything. That run
  passes the record on once: a completed record once to \<^verbatim>\<open>showResult\<close> and, unless the
  completion toast throws, once to \<^verbatim>\<open>addToHistory\<close>; the error of a failed record in one
  error toast, unless \<^verbatim>\<open>showToast\<close> throws on its text. If no other request of the session
  is in flight when the response is handled, the session passes no record on afterwards.
\<close>

theorem terminal_response_cancels_timer:
  assumes "map_of (inflight (run e init tes)) r = Some c" and "terminal job"
  shows "let s = run e init tes; s' = step e s (now, Settle r (success job)) in
           intervals s' = [] \<and>
           deliveries c s' = deliveries c s @
             (if get job ''status'' = Str ''completed''
              then ShowResult job # (if toast_throws e job then [] else [AddToHistory job])
              else (if toast_throws e job then []
                    else [ShowToast (toast_text e job) ''error''])) \<and>
           (\<forall>later t. step e (run e s' later) (t, Tick (sid c)) = run e s' later) \<and>
           ((\<forall>p \<in> set (inflight s). snd p = c \<longrightarrow> fst p = r) \<longrightarrow>
              (\<forall>later. deliveries c (run e s' later) = deliveries c s'))"
proof -
  define s where "s = run e init tes"
  define s0 where "s0 = s\<lparr>inflight := filter (\<lambda>p. fst p \<noteq> r) (inflight s)\<rparr>"
  define s' where "s' = step e s (now, Settle r (success job))"
  have w: "consistent s" by (simp add: s_def consistent_reachable)
  then have w0: "consistent s0" by (auto simp: consistent_def s0_def)
  have inf: "map_of (inflight s) r = Some c" using assms(1) by (simp add: s_def)
  have s': "s' = poll_settle e now c (success job) s0"
    using inf by (simp add: s'_def s0_def step_def)
  have i: "intervals s' = []"
    using terminal_settle(1) [OF assms(2), of e now c s0] consistent_clear [OF w0]
    by (simp add: s')
  have d: "deliveries c s' = deliveries c s @
             (if get job ''status'' = Str ''completed''
              then ShowResult job # (if toast_throws e job then [] else [AddToHistory job])
              else (if toast_throws e job then []
                    else [ShowToast (toast_text e job) ''error'']))"
    using terminal_settle(2) [OF assms(2), of c e now s0]
    by (simp add: s' s0_def deliveries_def)
  have "(r, c) \<in> set (inflight s)" using inf by (rule map_of_SomeD)
  with w have lt: "sid c < nextHandle s" by (auto simp: consistent_def)
  have nh: "nextHandle s' = nextHandle s" by (simp add: s' settle_simps s0_def)
  have "gone (sid c) s'" using i lt nh by (simp add: gone_def)
  then have g: "\<forall>later t. step e (run e s' later) (t, Tick (sid c)) = run e s' later"
    by (simp add: gone_run gone_tick)
  have r: "\<forall>later. deliveries c (run e s' later) = deliveries c s'"
    if only: "\<forall>p \<in> set (inflight s). snd p = c \<longrightarrow> fst p = r"
  proof -
    have "inflight s' = filter (\<lambda>p. fst p \<noteq> r) (inflight s)"
      by (simp add: s'_def settle_removes)
    with only have "\<forall>p \<in> set (inflight s'). snd p \<noteq> c" by auto
    with i lt nh have "retired c s'" by (simp add: retired_def)
    then show ?thesis by (simp add: retired_run)
  qed
  show ?thesis
    unfolding Let_def s_def [symmetric] s'_def [symmetric] using i d g r by blast
qed

theorem terminal_response_cancels_timer_witness:
  "map_of (inflight started1) 0 = Some poller1 \<and> terminal done1 \<and> terminal failed1 \<and>
   terminal failed2 \<and>
   (let s' = step env0 started1 (1500, Settle 0 (success done1)) in
      intervals s' = [] \<and> deliveries poller1 s' = [ShowResult done1, AddToHistory done1] \<and>
      (\<forall>later t. step env0 (run env0 s' later) (t, Tick 1) = run env0 s' later) \<and>
      (\<forall>later. deliveries poller1 (run env0 s' later)
         = [ShowResult done1, AddToHistory done1])) \<and>
   (let s' = step env0 started1 (1500, Settle 0 (success failed1)) in
      intervals s' = [] \<and>
      deliveries poller1 s' = [ShowToast ''upstream timeout'' ''error''] \<and>
      (\<forall>later. deliveries poller1 (run env0 s' later)
         = [ShowToast ''upstream timeout'' ''error''])) \<and>
   (let s' = step env0 started1 (1500, Settle 0 (success failed2)) in
      intervals s' = [] \<and> deliveries poller1 s' = [])"
proof -
  have a: "map_of (inflight started1) 0 = Some poller1"
    by (simp add: started1_eq)
  have b: "terminal done1" "terminal failed1" "terminal failed2"
    by (simp_all add: terminal_def done1_def failed1_def failed2_def get_def)
  have c: "\<forall>p \<in> set (inflight started1). snd p = poller1 \<longrightarrow> fst p = 0"
    by (simp add: started1_eq)
  have d: "deliveries poller1 started1 = []"
    by (simp add: started1_eq deliveries_def)
  have e: "sid poller1 = 1" by (simp add: poller1_def)
  have f: "\<not> toast_throws env0 done1" "\<not> toast_throws env0 failed1"
    "toast_throws env0 failed2" "get done1 ''status'' = Str ''completed''"
    "get failed1 ''status'' = Str ''failed''" "get failed2 ''status'' = Str ''failed''"
    "toast_text env0 failed1 = ''upstream timeout''"
    by (simp_all add: toast_throws_def toast_text_def terminal_def env0_def done1_def
        failed1_def failed2_def get_def or_else_def)
  note t = terminal_response_cancels_timer
    [of env0 "[(0, Start (Str ''job-1'') (Str ''face''))]" 0 poller1 _ 1500,
     folded started1_def]
  from t [OF a b(1)] t [OF a b(2)] t [OF a b(3)] a b c d e f show ?thesis
    by (simp add: Let_def)
qed

text \<open>
  C9, as stated, fails. In the run \<open>stale\<close> the loop stops on the completed answer to
  request 1 and stores it; the answer to request 0, sent earlier and settled later, then
  replaces the terminal record with a processing one. And a failed answer whose error
  text makes \<^verbatim>\<open>showToast\<close> throw is not stored at all: the assignment to
  \<^verbatim>\<open>state.currentJob\<close> is skipped.
\<close>

theorem terminal_record_replaced:
  "currentJob (run env0 init (take 3 stale)) = Some done1 \<and>
   intervals (run env0 init (take 3 stale)) = [] \<and>
   currentJob (run env0 init stale) = Some working1 \<and>
   currentJob (step env0 started1 (1500, Settle 0 (success failed2))) = currentJob started1 \<and>
   currentJob started1 \<noteq> Some failed2"
  by (simp add: stale_def eval_defs env0_def poller1_def done1_def working1_def failed2_def
      started1_def or_else_def)

text \<open>
  C9, amended. The run that handles a 2xx response with a JSON body stores that body as
  \<open>currentJob\<close>, whatever its status, unless the toast of a terminal branch throws: then
  \<open>currentJob\<close> is as before. After the loop has stopped on a stored terminal record, the
  record stays through every later event that is neither a new call of
  \<^verbatim>\<open>startJobPolling\<close> nor a 2xx JSON answer to a request that was still in flight when the
  loop stopped.
\<close>

theorem currentJob_stored:
  assumes "map_of (inflight (run e init tes)) r = Some c"
  shows "let s = run e init tes; s' = step e s (now, Settle r (success job)) in
           currentJob s' = (if toast_throws e job then currentJob s else Some job) \<and>
           (terminal job \<and> \<not> toast_throws e job \<longrightarrow>
              (\<forall>later. list_all (undisturbed (map fst (inflight s'))) later \<longrightarrow>
                 currentJob (run e s' later) = Some job))"
proof -
  define s where "s = run e init tes"
  define s0 where "s0 = s\<lparr>inflight := filter (\<lambda>p. fst p \<noteq> r) (inflight s)\<rparr>"
  define s' where "s' = step e s (now, Settle r (success job))"
  have w: "consistent s" by (simp add: s_def consistent_reachable)
  then have w0: "consistent s0" by (auto simp: consistent_def s0_def)
  have inf: "map_of (inflight s) r = Some c" using assms by (simp add: s_def)
  have s': "s' = poll_settle e now c (success job) s0"
    using inf by (simp add: s'_def s0_def step_def)
  have a: "currentJob s' = (if toast_throws e job then currentJob s else Some job)"
    by (simp add: s' settle_currentJob s0_def)
  have b: "\<forall>later. list_all (undisturbed (map fst (inflight s'))) later \<longrightarrow>
             currentJob (run e s' later) = Some job"
    if t: "terminal job" and n: "\<not> toast_throws e job"
  proof -
    have i: "intervals s' = []"
      using terminal_settle(1) [OF t, of e now c s0] consistent_clear [OF w0]
      by (simp add: s')
    show ?thesis using undisturbed_run [OF i, of "map fst (inflight s')" _ e] a n by simp
  qed
  show ?thesis
    unfolding Let_def s_def [symmetric] s'_def [symmetric] using a b by blast
qed

theorem currentJob_stored_witness:
  "map_of (inflight (run env0 init (take 2 stale))) 1 = Some poller1 \<and>
   terminal done1 \<and> \<not> toast_throws env0 done1 \<and> \<not> toast_throws env0 working1 \<and>
   list_all (undisturbed [0])
     [(2400, Configure (Some ''http://127.0.0.1:9000/api/'')), (2500, Tick 1),
      (2600, Settle 0 (Rejects (Str ''Failed to fetch'')))] \<and>
   currentJob (run env0 init (take 3 stale)) = Some done1 \<and>
   currentJob (run env0 (run env0 init (take 3 stale))
     [(2400, Configure (Some ''http://127.0.0.1:9000/api/'')), (2500, Tick 1),
      (2600, Settle 0 (Rejects (Str ''Failed to fetch'')))]) = Some done1 \<and>
   currentJob (step env0 (run env0 init (take 2 stale)) (2300, Settle 1 (success working1)))
     = Some working1"
proof -
  let ?later = "[(2400, Configure (Some ''http://127.0.0.1:9000/api/'')), (2500, Tick 1),
      (2600, Settle 0 (Rejects (Str ''Failed to fetch'')))]"
  let ?s' = "step env0 (run env0 init (take 2 stale)) (2300, Settle 1 (success done1))"
  have a: "map_of (inflight (run env0 init (take 2 stale))) 1 = Some poller1"
    by (simp add: stale_def eval_defs env0_def poller1_def)
  have b: "terminal done1" "\<not> toast_throws env0 done1" "\<not> toast_throws env0 working1"
    by (simp_all add: terminal_def toast_throws_def toast_text_def env0_def done1_def
        working1_def get_def)
  have c: "list_all (undisturbed [0]) ?later"
    by (simp add: answers_def)
  have d: "run env0 init (take 3 stale) = ?s'"
    by (simp add: stale_def)
  have e: "map fst (inflight ?s') = [0]"
    by (simp add: stale_def eval_defs env0_def poller1_def done1_def)
  note t = currentJob_stored [OF a, of 2300 done1, unfolded Let_def]
  from t b have f: "currentJob ?s' = Some done1" by simp
  from t b e have "\<forall>later. list_all (undisturbed [0]) later \<longrightarrow>
      currentJob (run env0 ?s' later) = Some done1" by simp
  with c have g: "currentJob (run env0 ?s' ?later) = Some done1" by blast
  from currentJob_stored [OF a, of 2300 working1, unfolded Let_def] b
  have h: "currentJob (step env0 (run env0 init (take 2 stale))
      (2300, Settle 1 (success working1))) = Some working1" by simp
  show ?thesis using a b c f g h unfolding d by blast
qed

section \<open>Starting and stopping\<close>

text \<open>
  C2. In every state the event loop reaches at most one interval is running. A call of
  \<^verbatim>\<open>startJobPolling\<close> there leaves exactly the new interval, and a second call leaves
  exactly its own, the one of the first call being cancelled. The cancelling step is
  idempotent and changes nothing when no interval is running.
\<close>

theorem single_timer:
  "let s = run e init tes;
       s1 = startJobPolling e t1 j1 ty1 s;
       s2 = startJobPolling e t2 j2 ty2 s1
   in length (intervals s) \<le> 1 \<and>
      intervals s1 = [(nextHandle s, \<lparr>sid = nextHandle s, jobId = j1, startTime = t1\<rparr>)] \<and>
      pollingTimer s1 = Some (nextHandle s) \<and>
      intervals s2 =
        [(Suc (nextHandle s), \<lparr>sid = Suc (nextHandle s), jobId = j2, startTime = t2\<rparr>)] \<and>
      pollingTimer s2 = Some (Suc (nextHandle s)) \<and>
      clearPrevious (clearPrevious s) = clearPrevious s \<and>
      (intervals s = [] \<longrightarrow> clearPrevious s = s)"
proof -
  define s where "s = run e init tes"
  define s1 where "s1 = startJobPolling e t1 j1 ty1 s"
  have w: "consistent s" by (simp add: s_def consistent_reachable)
  then have w1: "consistent s1" by (simp add: s1_def consistent_start)
  have a: "length (intervals s) \<le> 1" using w by (simp add: consistent_def)
  have b: "intervals s1 = [(nextHandle s, \<lparr>sid = nextHandle s, jobId = j1, startTime = t1\<rparr>)]"
    using consistent_clearPrevious [OF w] by (simp add: s1_def start_simps)
  have c: "intervals (startJobPolling e t2 j2 ty2 s1) =
      [(Suc (nextHandle s), \<lparr>sid = Suc (nextHandle s), jobId = j2, startTime = t2\<rparr>)]"
    using consistent_clearPrevious [OF w1] by (simp add: start_simps) (simp add: s1_def start_simps)
  show ?thesis
    unfolding Let_def s_def [symmetric] s1_def [symmetric]
    using a b c by (simp add: start_simps clearPrevious_twice clearPrevious_noop) (simp add: s1_def start_simps)
qed

theorem single_timer_witness:
  "intervals init = [] \<and> clearPrevious init = init \<and>
   intervals (startJobPolling env0 0 (Str ''job-1'') (Str ''face'') init) = [(1, poller1)] \<and>
   intervals (startJobPolling env0 7000 (Str ''job-2'') (Str ''video'')
      (startJobPolling env0 0 (Str ''job-1'') (Str ''face'') init))
     = [(2, \<lparr>sid = 2, jobId = Str ''job-2'', startTime = 7000\<rparr>)]"
proof -
  have a: "intervals init = []" "nextHandle init = 1" by (simp_all add: init_def)
  from single_timer [of env0 "[]" 0 "Str ''job-1''" "Str ''face''" 7000 "Str ''job-2''"
      "Str ''video''"] a
  show ?thesis by (simp add: Let_def poller1_def)
qed

text \<open>
  C5, as stated, fails: the source has no stop operation. Whatever a caller invokes on
  the poller while a timer is running, a timer is running afterwards.
\<close>

theorem no_stop_operation:
  "\<not> (\<exists>call. intervals (invoke env0 5000 call started1) = [])"
  by (auto simp: invoke_def start_simps split: poller_call.splits)

text \<open>
  C5, amended. The poller has no operation that only stops it. The first statement of
  \<^verbatim>\<open>startJobPolling\<close> cancels the running interval, if there is one, and changes nothing
  else; with no interval running it changes nothing at all. Every call of
  \<^verbatim>\<open>startJobPolling\<close> leaves an interval running.
\<close>

theorem cancel_previous:
  "let s = run e init tes in
     clearPrevious s = s\<lparr>intervals := []\<rparr> \<and>
     (intervals s = [] \<longrightarrow> clearPrevious s = s) \<and>
     (\<forall>now call. intervals (invoke e now call s) \<noteq> [])"
  using clearPrevious_eq [OF consistent_reachable, of e tes]
  by (auto simp: Let_def clearPrevious_noop invoke_def start_simps split: poller_call.splits)

theorem cancel_previous_witness:
  "intervals init = [] \<and> clearPrevious init = init \<and>
   clearPrevious started1 = started1\<lparr>intervals := []\<rparr> \<and>
   intervals (invoke env0 5000 (StartJobPolling (Str ''job-2'') (Str ''video'')) started1) \<noteq> []"
proof -
  have a: "intervals init = []" by (simp add: init_def)
  note t = cancel_previous [of env0 "[(0, Start (Str ''job-1'') (Str ''face''))]",
      folded started1_def]
  from cancel_previous [of env0 "[]"] t a show ?thesis
    by (simp add: Let_def)
qed

section \<open>Elapsed time\<close>

text \<open>
  C7. When the clock does not go back from one event to the next, the elapsed times
  that one session shows, in the order it shows them, never decrease.
\<close>

theorem elapsed_nondecreasing:
  assumes "sorted (map fst tes)"
  shows "sorted (shown_times c (run e init tes))"
  using shown_times_run [OF assms, of c init e] by (simp add: shown_times_def init_def)

theorem elapsed_nondecreasing_witness:
  "sorted (map fst two_polls) \<and> shown_times poller1 (run env0 init two_polls) = [1, 3] \<and>
   sorted (shown_times poller1 (run env0 init two_polls))"
proof -
  have a: "sorted (map fst two_polls)" by (simp add: two_polls_def POLLING_INTERVAL_def)
  have b: "shown_times poller1 (run env0 init two_polls) = [1, 3]"
    by (simp add: two_polls_def eval_defs env0_def poller1_def done1_def working1_def
        shown_times_def)
  from elapsed_nondecreasing [OF a, of poller1 env0] a b show ?thesis by simp
qed

section \<open>API base\<close>

text \<open>
  C6, as stated, fails: a value that ends in two slashes loses only the last one, and
  the stored API base ends in a slash.
\<close>

theorem setApiBase_keeps_slash:
  "API_BASE (setApiBase env0 (Some ''http://example.com//'') init) = ''http://example.com/''"
  by (simp add: setApiBase_def trim_def isSpace_def stripSlash_def Let_def)

text \<open>
  C6, amended. Let \<open>v\<close> be the configured value with white space trimmed at both ends
  (the value itself when it neither starts nor ends with white space). If \<open>v\<close> is empty,
  or the value is unset, the API base is the local default for the hosts localhost and
  127.0.0.1 and the page's origin followed by /api otherwise. If not, the API base is
  \<open>v\<close> without its last character when that is a slash, and \<open>v\<close> otherwise; it ends in a
  slash exactly when \<open>v\<close> ends in two.
\<close>

theorem setApiBase_result:
  "let v = trim (case url of None \<Rightarrow> [] | Some u \<Rightarrow> u); b = API_BASE (setApiBase e url s) in
     (v = [] \<longrightarrow>
        b = (if hostname e = ''localhost'' \<or> hostname e = ''127.0.0.1''
             then ''http://localhost:8000/api'' else origin e @ ''/api'')) \<and>
     (v \<noteq> [] \<and> last v = CHR ''/'' \<longrightarrow> b @ ''/'' = v) \<and>
     (v \<noteq> [] \<and> last v \<noteq> CHR ''/'' \<longrightarrow> b = v) \<and>
     (v \<noteq> [] \<longrightarrow> (b \<noteq> [] \<and> last b = CHR ''/'') = (\<exists>w. v = w @ ''//'')) \<and>
     (\<forall>u. url = Some u \<and> u \<noteq> [] \<and> \<not> isSpace (hd u) \<and> \<not> isSpace (last u) \<longrightarrow> v = u)"
proof -
  define v where "v = trim (case url of None \<Rightarrow> [] | Some u \<Rightarrow> u)"
  define b where "b = API_BASE (setApiBase e url s)"
  have 1: "v = [] \<Longrightarrow> b = (if hostname e = ''localhost'' \<or> hostname e = ''127.0.0.1''
             then ''http://localhost:8000/api'' else origin e @ ''/api'')"
    by (simp add: b_def v_def setApiBase_def computeDefaultApiBase_def Let_def)
  have b: "v \<noteq> [] \<Longrightarrow> b = stripSlash v"
    by (simp add: b_def v_def setApiBase_def Let_def)
  have 2: "v \<noteq> [] \<and> last v = CHR ''/'' \<longrightarrow> b @ ''/'' = v"
    using b stripSlash_cases [of v] by auto
  have 3: "v \<noteq> [] \<and> last v \<noteq> CHR ''/'' \<longrightarrow> b = v"
    using b stripSlash_cases [of v] by auto
  have 4: "v \<noteq> [] \<longrightarrow> (b \<noteq> [] \<and> last b = CHR ''/'') = (\<exists>w. v = w @ ''//'')"
    using b stripSlash_slash [of v] by auto
  have 5: "\<forall>u. url = Some u \<and> u \<noteq> [] \<and> \<not> isSpace (hd u) \<and> \<not> isSpace (last u) \<longrightarrow> v = u"
    by (auto simp: v_def trim_id)
  show ?thesis
    unfolding Let_def v_def [symmetric] b_def [symmetric] using 1 2 3 4 5 by blast
qed

theorem setApiBase_result_witness:
  "API_BASE (setApiBase env0 None init) = ''http://localhost:8000/api'' \<and>
   API_BASE (setApiBase (env0\<lparr>hostname := ''app.example.com'', origin := ''https://app.example.com''\<rparr>)
     (Some ''  '') init) = ''https://app.example.com/api'' \<and>
   API_BASE (setApiBase env0 (Some '' https://api.example.com/v1/ '') init)
     = ''https://api.example.com/v1'' \<and>
   API_BASE (setApiBase env0 (Some ''https://api.example.com/v1'') init)
     = ''https://api.example.com/v1''"
proof -
  have t1: "trim [] = []" by (simp add: trim_def)
  have t2: "trim ''  '' = []" by (simp add: trim_def isSpace_def)
  have t3: "trim '' https://api.example.com/v1/ '' = ''https://api.example.com/v1/''"
    by (simp add: trim_def isSpace_def)
  have t4: "trim ''https://api.example.com/v1'' = ''https://api.example.com/v1''"
    by (simp add: trim_def isSpace_def)
  from setApiBase_result [of None env0 init]
    setApiBase_result [of "Some ''  ''"
      "env0\<lparr>hostname := ''app.example.com'', origin := ''https://app.example.com''\<rparr>" init]
    setApiBase_result [of "Some '' https://api.example.com/v1/ ''" env0 init]
    setApiBase_result [of "Some ''https://api.example.com/v1''" env0 init]
  show ?thesis
    by (simp add: Let_def t1 t2 t3 t4 env0_def)
qed

text \<open>
  C10. \<^verbatim>\<open>getBackendOrigin\<close> returns for every API base and throws for none: the origin
  of the API base when the URL parser accepts it, and http://localhost:8000 when it does
  not.
\<close>

theorem getBackendOrigin_total:
  "getBackendOrigin e s =
     Inr (case new_URL e (API_BASE s) of Inl x \<Rightarrow> ''http://localhost:8000'' | Inr og \<Rightarrow> og)"
  by (simp add: getBackendOrigin_def try_catch_def split: sum.splits)

theorem getBackendOrigin_total_witness:
  "getBackendOrigin env0 init = Inr ''http://localhost:8000'' \<and>
   getBackendOrigin (env0\<lparr>new_URL := (\<lambda>x. Inr (take 23 x))\<rparr>)
     (init\<lparr>API_BASE := ''https://api.example.com/v1''\<rparr>) = Inr ''https://api.example.com''"
  using getBackendOrigin_total [of env0 init]
    getBackendOrigin_total [of "env0\<lparr>new_URL := (\<lambda>x. Inr (take 23 x))\<rparr>"
      "init\<lparr>API_BASE := ''https://api.example.com/v1''\<rparr>"]
  by (simp add: env0_def init_def)

section \<open>Submission\<close>

text \<open>
  C8, as stated, fails: when the response is not 2xx and carries a detail, the promise
  of the submit function is fulfilled, not rejected with that detail.
\<close>

theorem failed_submission_fulfils:
  "fst (submitFaceGeneration env0 0 (Resolves rejected1) init) = Resolves () \<and>
   fst (submitFaceGeneration env0 0 (Resolves rejected1) init)
     \<noteq> Rejects (Str ''Prompt is required'')"
  by (simp add: submitFaceGeneration_def submit_settle_def submit_try_def showToast_def
      rejected1_def get_def or_else_def env0_def)

text \<open>
  C8, amended. When the response to a submission is not 2xx, each of the three submit
  functions catches the error itself and passes its message to \<^verbatim>\<open>showToast\<close>: the string
  form of the \<^verbatim>\<open>detail\<close> of the response body when that is truthy, the text Generation
  failed when it is not, and the message of the parse error when the body is not JSON.
  When the toast can be built, one error toast with that message is shown and the promise
  is fulfilled. When the message swallows the close button, \<^verbatim>\<open>showToast\<close> throws inside
  the \<^verbatim>\<open>catch\<close>: no toast is shown and the promise is rejected with that \<^verbatim>\<open>TypeError\<close>.
  Either way the button's loading state is stopped and \<^verbatim>\<open>startJobPolling\<close> is not called:
  timers, requests in flight, \<open>pollingTimer\<close> and \<open>currentJob\<close> are as before.
\<close>

theorem failed_submission_toast:
  assumes "\<not> ok r"
  shows "let res =
             (if swallows e (failure_cause r)
              then (Rejects (Str (null_message e)),
                    s\<lparr>effects := effects s @ [(None, SetButtonLoading False)]\<rparr>)
              else (Resolves (),
                    s\<lparr>effects := effects s @
                      [(None, ShowToast (failure_cause r) ''error''),
                       (None, SetButtonLoading False)]\<rparr>))
         in
           submitFaceGeneration e now (Resolves r) s = res \<and>
           submitVideoGeneration e now (Resolves r) s = res \<and>
           submitLipsyncGeneration e now (Resolves r) s = res \<and>
           intervals (snd res) = intervals s \<and> inflight (snd res) = inflight s \<and>
           pollingTimer (snd res) = pollingTimer s \<and> currentJob (snd res) = currentJob s \<and>
           (\<forall>body. json r = Resolves body \<longrightarrow>
              failure_cause r =
                (if truthy (get body ''detail'') then ToString (get body ''detail'')
                 else ''Generation failed'')) \<and>
           (\<forall>x. json r = Rejects x \<longrightarrow> failure_cause r = ToString x)"
  using assms
  by (simp add: Let_def submitFaceGeneration_def submitVideoGeneration_def
      submitLipsyncGeneration_def submit_settle_failure)
    (simp add: failure_cause_def or_else_def)

theorem failed_submission_toast_witness:
  "\<not> ok rejected1 \<and> \<not> ok rejected2 \<and> \<not> ok rejected3 \<and>
   submitFaceGeneration env0 0 (Resolves rejected1) init =
     (Resolves (), init\<lparr>effects := [(None, ShowToast ''Prompt is required'' ''error''),
        (None, SetButtonLoading False)]\<rparr>) \<and>
   submitVideoGeneration env0 0 (Resolves rejected2) init =
     (Resolves (), init\<lparr>effects := [(None, ShowToast ''422'' ''error''),
        (None, SetButtonLoading False)]\<rparr>) \<and>
   submitLipsyncGeneration env0 0 (Resolves rejected3) init =
     (Rejects (Str ''closeBtn is null''),
      init\<lparr>effects := [(None, SetButtonLoading False)]\<rparr>) \<and>
   intervals (snd (submitFaceGeneration env0 0 (Resolves rejected1) init)) = []"
proof -
  have a: "\<not> ok rejected1" "\<not> ok rejected2" "\<not> ok rejected3"
    by (simp_all add: rejected1_def rejected2_def rejected3_def)
  have n: "dec 422 = ''422''" by code_simp
  have b: "failure_cause rejected1 = ''Prompt is required''"
    "failure_cause rejected2 = ''422''" "failure_cause rejected3 = ''<!-- x''"
    by (simp_all add: failure_cause_def rejected1_def rejected2_def rejected3_def get_def
        or_else_def n)
  have c: "effects init = []" "intervals init = []" by (simp_all add: init_def)
  have d: "\<not> swallows env0 ''Prompt is required''" "\<not> swallows env0 ''422''"
    "swallows env0 ''<!-- x''" "null_message env0 = ''closeBtn is null''"
    by (simp_all add: env0_def)
  from failed_submission_toast [OF a(1), of env0 init 0]
    failed_submission_toast [OF a(2), of env0 init 0]
    failed_submission_toast [OF a(3), of env0 init 0] a b c d show ?thesis
    by (simp add: Let_def)
qed

end
